theory Spec2Isabelle
  imports Main
begin

section \<open>Python values used by iolib\<close>

text \<open>
  The exceptions that the modelled functions of \<^verbatim>\<open>src/iolib/main.py\<close> can raise:
  \<^verbatim>\<open>TypeError\<close> (raised by \<^verbatim>\<open>selection\<close> without options),
  \<^verbatim>\<open>UnicodeDecodeError\<close> (raised by \<^verbatim>\<open>key.decode()\<close> on a byte that is
  not ASCII) and \<^verbatim>\<open>IndexError\<close> (list indexing and \<^verbatim>\<open>list.pop\<close> out of range).
\<close>

datatype error = TypeError | UnicodeDecodeError | IndexError

text \<open>
  One iteration of a key loop either goes on with a new state, returns a value, or
  raises. A run over a finite list of pending keys returns, raises, or is still polling
  \<^verbatim>\<open>msvcrt.kbhit()\<close> when the keys are used up. The standard output is part of
  every state, as the text written so far.
\<close>

datatype ('s, 'r) step = Continue 's | Return 'r 's | Raise error 's

datatype ('s, 'r) outcome = Returned 'r string | Raised error string | Polling 's

text \<open>A key is the one byte that \<^verbatim>\<open>msvcrt.getch()\<close> returns.\<close>

type_synonym key = char

definition UP :: key where "UP = CHR ''H''"
definition DOWN :: key where "DOWN = CHR ''P''"
definition RIGHT :: key where "RIGHT = CHR ''M''"
definition LEFT :: key where "LEFT = CHR ''K''"
definition ENTER :: key where "ENTER = CHR 0x0D"
definition BACKSPACE :: key where "BACKSPACE = CHR 0x08"
definition SPECIAL :: key where "SPECIAL = CHR 0x00"
definition IGNORE :: "key list" where "IGNORE = [RIGHT, LEFT, CHR ''H'', CHR ''P'']"

definition ESC :: char where "ESC = CHR 0x1B"
definition CR :: char where "CR = CHR 0x0D"
definition LF :: char where "LF = CHR 0x0A"

definition ANSI_UP :: string where "ANSI_UP = [ESC, CHR ''['', CHR ''A'']"
definition ANSI_DOWN :: string where "ANSI_DOWN = [ESC, CHR ''['', CHR ''B'']"
definition ANSI_RIGHT :: string where "ANSI_RIGHT = [ESC, CHR ''['', CHR ''C'']"
definition ANSI_LEFT :: string where "ANSI_LEFT = [ESC, CHR ''['', CHR ''D'']"

text \<open>\<^verbatim>\<open>s * n\<close> on a string: the empty string when \<^verbatim>\<open>n\<close> is not positive.\<close>

definition py_mul :: "string \<Rightarrow> int \<Rightarrow> string" where
  "py_mul s n = concat (replicate (nat n) s)"

text \<open>\<^verbatim>\<open>xs[i]\<close>: a negative index counts from the end, out of range raises.\<close>

definition py_index :: "'a list \<Rightarrow> int \<Rightarrow> error + 'a" where
  "py_index xs i =
     (let n = int (length xs); j = (if i < 0 then i + n else i)
      in if 0 \<le> j \<and> j < n then Inr (xs ! nat j) else Inl IndexError)"

text \<open>\<^verbatim>\<open>xs[i:len(xs)]\<close>: slice bounds are clamped, never an error.\<close>

definition py_slice_from :: "'a list \<Rightarrow> int \<Rightarrow> 'a list" where
  "py_slice_from xs i =
     (let n = int (length xs); j = (if i < 0 then max 0 (i + n) else min i n)
      in drop (nat j) xs)"

text \<open>\<^verbatim>\<open>xs.insert(i, x)\<close>: the index is clamped to the list, never an error.\<close>

definition py_insert :: "'a list \<Rightarrow> int \<Rightarrow> 'a \<Rightarrow> 'a list" where
  "py_insert xs i x =
     (let n = int (length xs); j = (if i < 0 then max 0 (i + n) else min i n)
      in take (nat j) xs @ x # drop (nat j) xs)"

text \<open>\<^verbatim>\<open>xs.pop(i)\<close>, the list that is left: out of range raises.\<close>

definition py_pop :: "'a list \<Rightarrow> int \<Rightarrow> error + 'a list" where
  "py_pop xs i =
     (let n = int (length xs); j = (if i < 0 then i + n else i)
      in if 0 \<le> j \<and> j < n then Inr (take (nat j) xs @ drop (Suc (nat j)) xs)
         else Inl IndexError)"

text \<open>\<^verbatim>\<open>key.decode()\<close> (UTF-8) of one byte: the character itself for an ASCII byte.\<close>

definition decode :: "key \<Rightarrow> error + char" where
  "decode k = (if (of_char k :: nat) < 128 then Inr k else Inl UnicodeDecodeError)"

text \<open>\<^verbatim>\<open>str(n)\<close> of an integer, as the f-strings of the edit loops need it.\<close>

fun digits10 :: "nat \<Rightarrow> string" where
  "digits10 n =
     (if n < 10 then [char_of (48 + n)]
      else digits10 (n div 10) @ [char_of (48 + n mod 10)])"

declare digits10.simps [simp del]

definition str_int :: "int \<Rightarrow> string" where
  "str_int i = (if i < 0 then CHR ''-'' # digits10 (nat (- i)) else digits10 (nat i))"

text \<open>\<^verbatim>\<open>f"\u001b[{n}D"\<close>: move the terminal cursor \<open>n\<close> columns to the left.\<close>

definition ansi_left_n :: "int \<Rightarrow> string" where
  "ansi_left_n n = [ESC, CHR ''[''] @ str_int n @ [CHR ''D'']"

section \<open>selection\<close>

text \<open>
  The local state of \<^verbatim>\<open>selection\<close>: the highlighted index and the output written.
  The function keeps no record of the previous key.
\<close>

record sel_state =
  idx :: int
  sel_out :: string

definition sel_write :: "string \<Rightarrow> sel_state \<Rightarrow> sel_state" where
  "sel_write txt s = s\<lparr>sel_out := sel_out s @ txt\<rparr>"

text \<open>\<^verbatim>\<open>len(max(options, key=len))\<close> for a non-empty tuple of options.\<close>

definition longest_option :: "string list \<Rightarrow> int" where
  "longest_option options = int (fold max (map length options) 0)"

definition longest_mode :: "string \<Rightarrow> string \<Rightarrow> int" where
  "longest_mode passive active = int (max (length passive) (length active))"

definition sel_reset :: "string list \<Rightarrow> string \<Rightarrow> string \<Rightarrow> string" where
  "sel_reset options active passive =
     [CR] @ py_mul '' '' (longest_option options + longest_mode passive active) @ [CR]"

text \<open>The display of the options before the loop, with the cursor placed at the top.\<close>

definition sel_init :: "string list \<Rightarrow> string \<Rightarrow> string \<Rightarrow> sel_state" where
  "sel_init options active passive =
     \<lparr>idx = 0,
      sel_out = active @ hd options
        @ concat (map (\<lambda>option. [LF] @ passive @ option) (tl options))
        @ [CR]
        @ py_mul ANSI_UP (int (length options) - 1)\<rparr>"

text \<open>The branch \<^verbatim>\<open>elif key == DOWN\<close>.\<close>

definition sel_down ::
  "string list \<Rightarrow> string \<Rightarrow> string \<Rightarrow> bool \<Rightarrow> sel_state \<Rightarrow> (sel_state, string) step" where
  "sel_down options active passive wrap s =
     (let n_options = int (length options);
          current = idx s;
          i1 = min (current + 1) (n_options - 1);
          s1 = sel_write (sel_reset options active passive) s
      in case py_index options current of
           Inl e \<Rightarrow> Raise e s1
         | Inr oc \<Rightarrow>
            (let s2 = sel_write [CR] (sel_write (passive @ oc) s1);
                 s3 = (if i1 = current
                       then (if wrap \<and> n_options > 1
                             then sel_write (py_mul ANSI_UP (n_options - 1)) (s2\<lparr>idx := 0\<rparr>)
                             else s2\<lparr>idx := i1\<rparr>)
                       else sel_write ANSI_DOWN (s2\<lparr>idx := i1\<rparr>))
             in (case py_index options (idx s3) of
                   Inl e \<Rightarrow> Raise e s3
                 | Inr oi \<Rightarrow> Continue (sel_write [CR] (sel_write (active @ oi) s3)))))"

text \<open>The branch \<^verbatim>\<open>elif key == UP\<close>.\<close>

definition sel_up ::
  "string list \<Rightarrow> string \<Rightarrow> string \<Rightarrow> bool \<Rightarrow> sel_state \<Rightarrow> (sel_state, string) step" where
  "sel_up options active passive wrap s =
     (let n_options = int (length options);
          current = idx s;
          i1 = max (current - 1) 0;
          s1 = sel_write (sel_reset options active passive) s
      in case py_index options current of
           Inl e \<Rightarrow> Raise e s1
         | Inr oc \<Rightarrow>
            (let s2 = sel_write [CR] (sel_write (passive @ oc) s1);
                 s3 = (if i1 = current
                       then (if wrap \<and> n_options > 1
                             then sel_write (py_mul ANSI_DOWN (n_options - 1))
                                    (s2\<lparr>idx := n_options - 1\<rparr>)
                             else s2\<lparr>idx := i1\<rparr>)
                       else sel_write ANSI_UP (s2\<lparr>idx := i1\<rparr>))
             in (case py_index options (idx s3) of
                   Inl e \<Rightarrow> Raise e s3
                 | Inr oi \<Rightarrow> Continue (sel_write [CR] (sel_write (active @ oi) s3)))))"

text \<open>One iteration of the loop with a key pending; any other key changes nothing.\<close>

definition sel_step ::
  "string list \<Rightarrow> string \<Rightarrow> string \<Rightarrow> bool \<Rightarrow> sel_state \<Rightarrow> key \<Rightarrow> (sel_state, string) step" where
  "sel_step options active passive wrap s k =
     (if k = ENTER then
        (let s1 = sel_write [LF] s
         in case py_index options (idx s) of
              Inl e \<Rightarrow> Raise e s1
            | Inr option \<Rightarrow> Return option s1)
      else if k = DOWN then sel_down options active passive wrap s
      else if k = UP then sel_up options active passive wrap s
      else Continue s)"

fun sel_loop ::
  "string list \<Rightarrow> string \<Rightarrow> string \<Rightarrow> bool \<Rightarrow> sel_state \<Rightarrow> key list
     \<Rightarrow> (sel_state, string) outcome" where
  "sel_loop options active passive wrap s [] = Polling s"
| "sel_loop options active passive wrap s (k # ks) =
     (case sel_step options active passive wrap s k of
        Continue s' \<Rightarrow> sel_loop options active passive wrap s' ks
      | Return r s' \<Rightarrow> Returned r (sel_out s')
      | Raise e s' \<Rightarrow> Raised e (sel_out s'))"

text \<open>
  \<^verbatim>\<open>selection(*options, active, passive, wrap)\<close> run on the keys that the keyboard
  delivers. Without options it raises before anything is written.
\<close>

definition selection ::
  "string list \<Rightarrow> string \<Rightarrow> string \<Rightarrow> bool \<Rightarrow> key list \<Rightarrow> (sel_state, string) outcome" where
  "selection options active passive wrap keys =
     (if options = [] then Raised TypeError []
      else sel_loop options active passive wrap (sel_init options active passive) keys)"

section \<open>input_write\<close>

text \<open>
  The local variables of \<^verbatim>\<open>input_write\<close>: the characters written, the cursor
  index \<^verbatim>\<open>curr\<close>, the previous key (\<open>None\<close> for the initial \<^verbatim>\<open>""\<close>, which
  equals no byte), and the output.
\<close>

record iw_state =
  written :: string
  curr :: int
  last_key :: "key option"
  iw_out :: string

definition iw_init :: "string \<Rightarrow> string \<Rightarrow> iw_state" where
  "iw_init prompt edit =
     \<lparr>written = edit, curr = int (length edit), last_key = None, iw_out = prompt @ edit\<rparr>"

text \<open>The end of the last branch, from \<^verbatim>\<open># write letter\<close> on.\<close>

definition iw_write_letter :: "iw_state \<Rightarrow> key \<Rightarrow> (iw_state, string) step" where
  "iw_write_letter s k =
     (case decode k of
        Inl e \<Rightarrow> Raise e s
      | Inr letter \<Rightarrow>
          let w = py_insert (written s) (curr s) letter;
              c = curr s + 1;
              size = int (length w);
              rest = py_slice_from w c;
              n = size - c
          in Continue (s\<lparr>written := w, curr := c,
                iw_out := iw_out s @ [letter] @ rest @ (if n > 0 then ansi_left_n n else [])\<rparr>))"

text \<open>The branch \<^verbatim>\<open>elif key == BACKSPACE\<close>.\<close>

definition iw_backspace :: "iw_state \<Rightarrow> (iw_state, string) step" where
  "iw_backspace s =
     (if written s \<noteq> [] then
        (if curr s \<le> 0 then Continue s
         else
           let rest = py_slice_from (written s) (curr s);
               n = int (length rest) + 1;
               s1 = s\<lparr>iw_out := iw_out s @ ANSI_LEFT @ rest @ '' '' @ ansi_left_n n,
                      curr := curr s - 1\<rparr>
           in case py_pop (written s1) (curr s1) of
                Inl e \<Rightarrow> Raise e s1
              | Inr w \<Rightarrow> Continue (s1\<lparr>written := w\<rparr>))
      else Continue s)"

text \<open>One iteration of the loop with a key pending.\<close>

definition iw_step :: "iw_state \<Rightarrow> key \<Rightarrow> (iw_state, string) step" where
  "iw_step s0 k =
     (let last_key_copy = last_key s0;
          s = s0\<lparr>last_key := Some k\<rparr>
      in if k = ENTER then Return (written s) (s\<lparr>iw_out := iw_out s @ [LF]\<rparr>)
         else if k = RIGHT \<and> last_key_copy = Some SPECIAL then
           (if curr s < int (length (written s))
            then Continue (s\<lparr>iw_out := iw_out s @ ANSI_RIGHT, curr := curr s + 1\<rparr>)
            else Continue s)
         else if k = LEFT \<and> last_key_copy = Some SPECIAL then
           (if curr s > 0
            then Continue (s\<lparr>curr := curr s - 1, iw_out := iw_out s @ ANSI_LEFT\<rparr>)
            else Continue s)
         else if k = BACKSPACE then iw_backspace s
         else if k = SPECIAL then Continue s
         else if k \<in> set IGNORE \<and> last_key_copy = Some SPECIAL then Continue s
         else iw_write_letter s k)"

fun iw_loop :: "iw_state \<Rightarrow> key list \<Rightarrow> (iw_state, string) outcome" where
  "iw_loop s [] = Polling s"
| "iw_loop s (k # ks) =
     (case iw_step s k of
        Continue s' \<Rightarrow> iw_loop s' ks
      | Return r s' \<Rightarrow> Returned r (iw_out s')
      | Raise e s' \<Rightarrow> Raised e (iw_out s'))"

definition input_write :: "string \<Rightarrow> string \<Rightarrow> key list \<Rightarrow> (iw_state, string) outcome" where
  "input_write prompt edit keys = iw_loop (iw_init prompt edit) keys"

text \<open>The states in which the loop tests for a key, in order, while the keys are consumed.\<close>

fun iw_trace :: "iw_state \<Rightarrow> key list \<Rightarrow> iw_state list" where
  "iw_trace s [] = [s]"
| "iw_trace s (k # ks) =
     s # (case iw_step s k of Continue s' \<Rightarrow> iw_trace s' ks | Return r s' \<Rightarrow> [] | Raise e s' \<Rightarrow> [])"

section \<open>input_hidden\<close>

record ih_state =
  h_written :: string
  h_last_key :: "key option"
  h_out :: string

definition ih_init :: "string \<Rightarrow> ih_state" where
  "ih_init prompt = \<lparr>h_written = [], h_last_key = None, h_out = prompt\<rparr>"

definition ih_step :: "ih_state \<Rightarrow> key \<Rightarrow> (ih_state, string) step" where
  "ih_step s0 k =
     (let last_key_copy = h_last_key s0;
          s = s0\<lparr>h_last_key := Some k\<rparr>
      in if k = ENTER then Return (h_written s) (s\<lparr>h_out := h_out s @ [LF]\<rparr>)
         else if k = BACKSPACE then
           (if h_written s \<noteq> [] then Continue (s\<lparr>h_written := butlast (h_written s)\<rparr>)
            else Continue s)
         else if k = SPECIAL then Continue s
         else if k \<in> set IGNORE \<and> last_key_copy = Some SPECIAL then Continue s
         else (case decode k of
                 Inl e \<Rightarrow> Raise e s
               | Inr letter \<Rightarrow> Continue (s\<lparr>h_written := h_written s @ [letter]\<rparr>)))"

fun ih_loop :: "ih_state \<Rightarrow> key list \<Rightarrow> (ih_state, string) outcome" where
  "ih_loop s [] = Polling s"
| "ih_loop s (k # ks) =
     (case ih_step s k of
        Continue s' \<Rightarrow> ih_loop s' ks
      | Return r s' \<Rightarrow> Returned r (h_out s')
      | Raise e s' \<Rightarrow> Raised e (h_out s'))"

definition input_hidden :: "string \<Rightarrow> key list \<Rightarrow> (ih_state, string) outcome" where
  "input_hidden prompt keys = ih_loop (ih_init prompt) keys"

section \<open>IODisplay\<close>

text \<open>
  The fields of an \<^verbatim>\<open>IODisplay\<close>. \<open>d_written\<close> is \<^verbatim>\<open>_written\<close>, \<open>regestry\<close> is
  \<^verbatim>\<open>_regestry\<close>, \<open>thread\<close> tells whether \<^verbatim>\<open>_thread\<close> holds a thread object, and
  \<open>stdout\<close> is the text written to the standard output since the construction. The
  callback is a parameter of the loop.
\<close>

record iodisplay =
  prompt :: string
  lines :: int
  dispatch_on_enter :: bool
  running :: bool
  d_written :: string
  regestry :: "string list"
  thread :: bool
  stdout :: string

definition IODisplay :: "string \<Rightarrow> int \<Rightarrow> bool \<Rightarrow> iodisplay" where
  "IODisplay p n doe =
     \<lparr>prompt = p, lines = n, dispatch_on_enter = doe, running = False, d_written = [],
      regestry = replicate (nat n) [], thread = False, stdout = []\<rparr>"

definition d_write :: "string \<Rightarrow> iodisplay \<Rightarrow> iodisplay" where
  "d_write txt d = d\<lparr>stdout := stdout d @ txt\<rparr>"

text \<open>\<^verbatim>\<open>sep.join(xs)\<close>.\<close>

fun py_join :: "string \<Rightarrow> string list \<Rightarrow> string" where
  "py_join sep [] = []"
| "py_join sep [x] = x"
| "py_join sep (x # y # zs) = x @ sep @ py_join sep (y # zs)"

text \<open>\<^verbatim>\<open>get(dispatch)\<close>: the written string and the display afterwards.\<close>

definition get :: "iodisplay \<Rightarrow> bool \<Rightarrow> string \<times> iodisplay" where
  "get d dispatch =
     (let string = d_written d
      in if dispatch \<and> d_written d \<noteq> []
         then (string,
               (d_write (py_mul '' '' (int (length (d_written d)))
                         @ py_mul ANSI_LEFT (int (length (d_written d)))) d)
                 \<lparr>d_written := []\<rparr>)
         else (string, d))"

text \<open>\<^verbatim>\<open>_clear_lines(flush)\<close>; flushing does not change the text written.\<close>

definition clear_lines :: "iodisplay \<Rightarrow> bool \<Rightarrow> iodisplay" where
  "clear_lines d flush =
     d_write (py_mul ANSI_UP (lines d) @ [CR]
              @ concat (map (\<lambda>element. py_mul '' '' (int (length element)) @ [CR] @ ANSI_DOWN)
                          (regestry d))) d"

text \<open>\<^verbatim>\<open>_render_lines(init)\<close>.\<close>

definition render_lines :: "iodisplay \<Rightarrow> bool \<Rightarrow> iodisplay" where
  "render_lines d init =
     (let d1 = (if \<not> init then d_write (py_mul ANSI_UP (lines d) @ [CR]) d else d);
          content = py_join [LF] (regestry d1 @ [prompt d1 @ fst (get d1 False)])
      in d_write content d1)"

text \<open>
  The argument of \<^verbatim>\<open>push\<close>: a string; an iterable with a length that is not a
  string (a list or tuple), given by the \<^verbatim>\<open>str\<close> of its elements; an iterable
  without a length (a generator, a \<^verbatim>\<open>map\<close> object), given by the \<^verbatim>\<open>str\<close> of the
  elements it yields; or an object that is not iterable, given by its \<^verbatim>\<open>str\<close>.
\<close>

datatype pushable = PStr string | PLines "string list" | PIter "string list" | PAtom string

fun is_iterable :: "pushable \<Rightarrow> bool" where
  "is_iterable (PStr s) = True"
| "is_iterable (PLines ls) = True"
| "is_iterable (PIter ls) = True"
| "is_iterable (PAtom a) = False"

fun is_str :: "pushable \<Rightarrow> bool" where
  "is_str (PStr s) = True"
| "is_str (PLines ls) = False"
| "is_str (PIter ls) = False"
| "is_str (PAtom a) = False"

text \<open>\<^verbatim>\<open>map(str, o)\<close>; iterating a string gives its characters.\<close>

fun map_str :: "pushable \<Rightarrow> string list" where
  "map_str (PStr s) = map (\<lambda>c. [c]) s"
| "map_str (PLines ls) = ls"
| "map_str (PIter ls) = ls"
| "map_str (PAtom a) = []"

text \<open>\<^verbatim>\<open>len(o)\<close>: an object without a length raises \<^verbatim>\<open>TypeError\<close>.\<close>

fun py_len :: "pushable \<Rightarrow> error + int" where
  "py_len (PStr s) = Inr (int (length s))"
| "py_len (PLines ls) = Inr (int (length ls))"
| "py_len (PIter ls) = Inl TypeError"
| "py_len (PAtom a) = Inl TypeError"

fun py_str :: "pushable \<Rightarrow> string" where
  "py_str (PStr s) = s"
| "py_str (PLines ls) = concat ls"
| "py_str (PIter ls) = concat ls"
| "py_str (PAtom a) = a"

text \<open>
  A call of a method of the display returns or raises; either way it leaves a display,
  with which a caller that catches the exception goes on.
\<close>

datatype call = Returns iodisplay | Raises error iodisplay

fun state_after :: "call \<Rightarrow> iodisplay" where
  "state_after (Returns d) = d"
| "state_after (Raises e d) = d"

fun raised_error :: "call \<Rightarrow> error option" where
  "raised_error (Returns d) = None"
| "raised_error (Raises e d) = Some e"

text \<open>The end of \<^verbatim>\<open>push\<close>: \<^verbatim>\<open>if flush: self._render_lines()\<close>.\<close>

definition push_flush :: "iodisplay \<Rightarrow> bool \<Rightarrow> call" where
  "push_flush d flush = Returns (if flush then render_lines d False else d)"

text \<open>
  \<^verbatim>\<open>push(o, flush)\<close>. In the first branch the registry is extended before
  \<^verbatim>\<open>len(o)\<close> is evaluated, so an exception of \<^verbatim>\<open>len\<close> leaves the extended
  registry behind. In the second branch the list is not empty after the append, so
  \<^verbatim>\<open>pop(0)\<close> cannot raise and leaves the tail. \<open>map_str\<close> and \<open>py_len\<close> are only
  used in the first branch and \<open>py_str\<close> only in the second, where the argument is a
  string or not iterable.
\<close>

definition push :: "iodisplay \<Rightarrow> pushable \<Rightarrow> bool \<Rightarrow> call" where
  "push d o' flush =
     (let d1 = clear_lines d False
      in if is_iterable o' \<and> \<not> is_str o' then
           (let d2 = d1\<lparr>regestry := regestry d1 @ map_str o'\<rparr>
            in case py_len o' of
                 Inl e \<Rightarrow> Raises e d2
               | Inr k \<Rightarrow> push_flush (d2\<lparr>regestry := py_slice_from (regestry d2) k\<rparr>) flush)
         else push_flush (d1\<lparr>regestry := tl (regestry d1 @ [py_str o'])\<rparr>) flush)"

text \<open>\<^verbatim>\<open>clear(flush)\<close>.\<close>

definition clear :: "iodisplay \<Rightarrow> bool \<Rightarrow> iodisplay" where
  "clear d flush =
     (let d1 = clear_lines d (\<not> flush);
          d2 = d1\<lparr>regestry := replicate (nat (lines d1)) []\<rparr>
      in if flush then render_lines d2 False else d2)"

text \<open>
  \<^verbatim>\<open>stop(dispatch)\<close>, as the calling thread runs it: \<^verbatim>\<open>join\<close> is the wait for
  the worker, after which the thread object is dropped.
\<close>

definition stop :: "iodisplay \<Rightarrow> bool \<Rightarrow> iodisplay" where
  "stop d dispatch =
     (let d1 = d\<lparr>running := False\<rparr>;
          d2 = (if thread d1 then d1\<lparr>thread := False\<rparr> else d1)
      in if dispatch then clear_lines d2 False else d2)"

subsection \<open>The key loop of the display\<close>

text \<open>The display with the two local variables of \<^verbatim>\<open>_start\<close>.\<close>

record loop_state =
  disp :: iodisplay
  l_curr :: int
  l_last_key :: "key option"

definition ds_write_letter :: "loop_state \<Rightarrow> key \<Rightarrow> (loop_state, unit) step" where
  "ds_write_letter st k =
     (case decode k of
        Inl e \<Rightarrow> Raise e st
      | Inr letter \<Rightarrow>
          let d = disp st;
              w = py_insert (d_written d) (l_curr st) letter;
              c = l_curr st + 1;
              size = int (length w);
              rest = py_slice_from w c;
              n = size - c
          in Continue (st\<lparr>disp := d_write ([letter] @ rest @ (if n > 0 then ansi_left_n n else []))
                                     (d\<lparr>d_written := w\<rparr>),
                           l_curr := c\<rparr>))"

definition ds_backspace :: "loop_state \<Rightarrow> (loop_state, unit) step" where
  "ds_backspace st =
     (let d = disp st
      in if d_written d \<noteq> [] then
           (if l_curr st \<le> 0 then Continue st
            else
              let rest = py_slice_from (d_written d) (l_curr st);
                  n = int (length rest) + 1;
                  d1 = d_write (ANSI_LEFT @ rest @ '' '' @ ansi_left_n n) d;
                  c = max 0 (l_curr st - 1)
              in case py_pop (d_written d1) c of
                   Inl e \<Rightarrow> Raise e (st\<lparr>disp := d1, l_curr := c\<rparr>)
                 | Inr w \<Rightarrow> Continue (st\<lparr>disp := d1\<lparr>d_written := w\<rparr>, l_curr := c\<rparr>))
         else Continue st)"

text \<open>The branch \<^verbatim>\<open>if key == ENTER\<close>; the callback may change the display.\<close>

definition ds_enter ::
  "(string \<Rightarrow> iodisplay \<Rightarrow> iodisplay) option \<Rightarrow> loop_state \<Rightarrow> (loop_state, unit) step" where
  "ds_enter callback st =
     (let d = disp st;
          d1 = (if l_curr st \<noteq> 0 then d_write (py_mul ANSI_LEFT (l_curr st)) d else d);
          (string, d2) = get d1 (dispatch_on_enter d1);
          d3 = (case callback of None \<Rightarrow> d2 | Some f \<Rightarrow> f string d2)
      in Continue \<lparr>disp = d3, l_curr = 0, l_last_key = None\<rparr>)"

definition ds_step ::
  "(string \<Rightarrow> iodisplay \<Rightarrow> iodisplay) option \<Rightarrow> loop_state \<Rightarrow> key \<Rightarrow> (loop_state, unit) step" where
  "ds_step callback st0 k =
     (let last_key_copy = l_last_key st0;
          st = st0\<lparr>l_last_key := Some k\<rparr>
      in if k = ENTER then ds_enter callback st
         else if k = RIGHT \<and> last_key_copy = Some SPECIAL then
           (if l_curr st < int (length (d_written (disp st)))
            then Continue (st\<lparr>disp := d_write ANSI_RIGHT (disp st), l_curr := l_curr st + 1\<rparr>)
            else Continue st)
         else if k = LEFT \<and> last_key_copy = Some SPECIAL then
           (if l_curr st > 0
            then Continue (st\<lparr>l_curr := l_curr st - 1, disp := d_write ANSI_LEFT (disp st)\<rparr>)
            else Continue st)
         else if k = BACKSPACE then ds_backspace st
         else if k = SPECIAL then Continue st
         else if k \<in> set IGNORE \<and> last_key_copy = Some SPECIAL then Continue st
         else ds_write_letter st k)"

text \<open>The loop \<^verbatim>\<open>while self._running\<close>; it returns when the flag is found cleared.\<close>

fun ds_loop ::
  "(string \<Rightarrow> iodisplay \<Rightarrow> iodisplay) option \<Rightarrow> loop_state \<Rightarrow> key list
     \<Rightarrow> (loop_state, unit) outcome" where
  "ds_loop callback st [] =
     (if running (disp st) then Polling st else Returned () (stdout (disp st)))"
| "ds_loop callback st (k # ks) =
     (if running (disp st) then
        (case ds_step callback st k of
           Continue st' \<Rightarrow> ds_loop callback st' ks
         | Return r st' \<Rightarrow> Returned r (stdout (disp st'))
         | Raise e st' \<Rightarrow> Raised e (stdout (disp st')))
      else Returned () (stdout (disp st)))"

definition ds_init :: "iodisplay \<Rightarrow> loop_state" where
  "ds_init d =
     \<lparr>disp = render_lines (d\<lparr>running := True\<rparr>) True, l_curr = 0, l_last_key = None\<rparr>"

text \<open>\<^verbatim>\<open>_start()\<close> run on the keys that the keyboard delivers.\<close>

definition start_inner ::
  "(string \<Rightarrow> iodisplay \<Rightarrow> iodisplay) option \<Rightarrow> iodisplay \<Rightarrow> key list
     \<Rightarrow> (loop_state, unit) outcome" where
  "start_inner callback d keys = ds_loop callback (ds_init d) keys"

fun ds_trace ::
  "(string \<Rightarrow> iodisplay \<Rightarrow> iodisplay) option \<Rightarrow> loop_state \<Rightarrow> key list \<Rightarrow> loop_state list" where
  "ds_trace callback st [] = [st]"
| "ds_trace callback st (k # ks) =
     st # (if running (disp st) then
             (case ds_step callback st k of
                Continue st' \<Rightarrow> ds_trace callback st' ks
              | Return r st' \<Rightarrow> []
              | Raise e st' \<Rightarrow> [])
           else [])"

section \<open>Observations\<close>

text \<open>The state of a run that is still waiting for a key.\<close>

fun polling_state :: "('s, 'r) outcome \<Rightarrow> 's option" where
  "polling_state (Polling s) = Some s"
| "polling_state (Returned r out) = None"
| "polling_state (Raised e out) = None"

text \<open>
  The public methods of a display as operations, to speak of every sequence of calls.
  After a call that raised, the sequence goes on with the display that the call left.
\<close>

datatype disp_op = Push pushable bool | Clear bool | Get bool | Stop bool

fun apply_op :: "iodisplay \<Rightarrow> disp_op \<Rightarrow> iodisplay" where
  "apply_op d (Push o' flush) = state_after (push d o' flush)"
| "apply_op d (Clear flush) = clear d flush"
| "apply_op d (Get dispatch) = snd (get d dispatch)"
| "apply_op d (Stop dispatch) = stop d dispatch"

definition run_ops :: "iodisplay \<Rightarrow> disp_op list \<Rightarrow> iodisplay" where
  "run_ops d ops = fold (\<lambda>op d'. apply_op d' op) ops d"

text \<open>An operation other than the push of an iterable without a length.\<close>

fun sized_op :: "disp_op \<Rightarrow> bool" where
  "sized_op (Push (PIter ls) flush) = False"
| "sized_op op = True"


text \<open>The text that a run of \<^verbatim>\<open>input_hidden\<close> has written to the output.\<close>

fun ih_output :: "(ih_state, string) outcome \<Rightarrow> string" where
  "ih_output (Returned r out) = out"
| "ih_output (Raised e out) = out"
| "ih_output (Polling s) = h_out s"

text \<open>
  The rows of an unbounded terminal that a written text moves through, counted from the
  row \<open>r\<close> of the cursor at the start, downwards: the row of the cursor at the end, and
  the row of every character that is printed. \<^verbatim>\<open>ESC [ A\<close> moves one row up,
  \<^verbatim>\<open>ESC [ B\<close> and a line feed one row down; \<^verbatim>\<open>ESC [ C\<close>, \<^verbatim>\<open>ESC [ D\<close> and a
  carriage return stay on the row; any other character is printed where the cursor is.
\<close>

fun term_rows :: "int \<Rightarrow> string \<Rightarrow> int \<times> int list" where
  "term_rows r (c1 # c2 # c3 # cs) =
     (if c1 = ESC \<and> c2 = CHR ''['' \<and> c3 = CHR ''A'' then term_rows (r - 1) cs
      else if c1 = ESC \<and> c2 = CHR ''['' \<and> c3 = CHR ''B'' then term_rows (r + 1) cs
      else if c1 = ESC \<and> c2 = CHR ''['' \<and> (c3 = CHR ''C'' \<or> c3 = CHR ''D'')
        then term_rows r cs
      else if c1 = LF then term_rows (r + 1) (c2 # c3 # cs)
      else if c1 = CR then term_rows r (c2 # c3 # cs)
      else (fst (term_rows r (c2 # c3 # cs)), r # snd (term_rows r (c2 # c3 # cs))))"
| "term_rows r (c # cs) =
     (if c = LF then term_rows (r + 1) cs
      else if c = CR then term_rows r cs
      else (fst (term_rows r cs), r # snd (term_rows r cs)))"
| "term_rows r [] = (r, [])"

text \<open>The text that \<^verbatim>\<open>_clear_lines()\<close> followed by \<^verbatim>\<open>_render_lines()\<close> writes.\<close>

definition redraw :: "iodisplay \<Rightarrow> string" where
  "redraw d = drop (length (stdout d)) (stdout (render_lines (clear_lines d False) False))"

text \<open>A line without an escape character and without a line feed.\<close>

definition plain :: "string \<Rightarrow> bool" where
  "plain s = (ESC \<notin> set s \<and> LF \<notin> set s)"

section \<open>Properties of selection\<close>

lemma key_distinct:
  "DOWN \<noteq> ENTER" "UP \<noteq> ENTER" "UP \<noteq> DOWN"
  by (simp_all add: DOWN_def UP_def ENTER_def)

lemma sel_down_idx:
  assumes "0 \<le> idx s" and "idx s < int (length options)"
  shows "\<exists>s'. sel_down options active passive wrap s = Continue s' \<and>
           idx s' = (if idx s < int (length options) - 1 then idx s + 1
                     else if wrap then 0 else idx s)"
  using assms
  by (auto simp add: sel_down_def sel_write_def py_index_def Let_def min_def)

lemma sel_up_idx:
  assumes "0 \<le> idx s" and "idx s < int (length options)"
  shows "\<exists>s'. sel_up options active passive wrap s = Continue s' \<and>
           idx s' = (if 0 < idx s then idx s - 1
                     else if wrap then int (length options) - 1 else idx s)"
  using assms
  by (cases options) (auto simp add: sel_up_def sel_write_def py_index_def Let_def max_def)

lemma sel_enter:
  assumes "0 \<le> idx s" and "idx s < int (length options)"
  shows "sel_step options active passive wrap s ENTER =
           Return (options ! nat (idx s)) (sel_write [LF] s)"
  using assms by (simp add: sel_step_def py_index_def)

lemma sel_run_ABC:
  "map_option idx (polling_state
     (selection [''A'', ''B'', ''C''] active passive False [UP])) = Some 0"
  "map_option idx (polling_state
     (selection [''A'', ''B'', ''C''] active passive False [DOWN, DOWN, DOWN])) = Some 2"
  "map_option idx (polling_state
     (selection [''A'', ''B'', ''C''] active passive False [DOWN, DOWN, DOWN, DOWN])) = Some 2"
  "map_option idx (polling_state
     (selection [''A'', ''B'', ''C''] active passive True [DOWN, DOWN])) = Some 2"
  "map_option idx (polling_state
     (selection [''A'', ''B'', ''C''] active passive True [DOWN, DOWN, DOWN])) = Some 0"
  "map_option idx (polling_state
     (selection [''A'', ''B'', ''C''] active passive True [DOWN, DOWN, DOWN, DOWN])) = Some 1"
  by (simp_all add: selection_def sel_init_def sel_step_def sel_down_def sel_up_def
        sel_write_def py_index_def Let_def key_distinct)

text \<open>
  C3, as amended. In a menu over \<open>n\<close> options with the highlight at a valid index \<open>i\<close>:
  Down moves to \<open>i + 1\<close> when \<open>i < n - 1\<close>, and at the last index stays without wrap
  and moves to 0 with wrap; Up moves to \<open>i - 1\<close> when \<open>i > 0\<close>, and at index 0 stays
  without wrap and moves to the last index with wrap; Enter returns \<open>options[i]\<close>.
  For the options A, B, C from index 0: without wrap, Up stays at 0, three Downs reach 2
  and a fourth Down stays at 2; with wrap, two Downs reach 2, the third Down wraps to 0
  and the fourth yields 1.
\<close>

theorem selection_transitions:
  assumes "0 \<le> idx s" and "idx s < int (length options)"
  shows "(\<exists>s'. sel_step options active passive wrap s DOWN = Continue s' \<and>
             idx s' = (if idx s < int (length options) - 1 then idx s + 1
                       else if wrap then 0 else idx s))
       \<and> (\<exists>s'. sel_step options active passive wrap s UP = Continue s' \<and>
             idx s' = (if 0 < idx s then idx s - 1
                       else if wrap then int (length options) - 1 else idx s))
       \<and> (\<exists>s'. sel_step options active passive wrap s ENTER =
             Return (options ! nat (idx s)) s')
       \<and> map_option idx (polling_state
            (selection [''A'', ''B'', ''C''] active passive False [UP])) = Some 0
       \<and> map_option idx (polling_state
            (selection [''A'', ''B'', ''C''] active passive False [DOWN, DOWN, DOWN])) = Some 2
       \<and> map_option idx (polling_state
            (selection [''A'', ''B'', ''C''] active passive False [DOWN, DOWN, DOWN, DOWN]))
           = Some 2
       \<and> map_option idx (polling_state
            (selection [''A'', ''B'', ''C''] active passive True [DOWN, DOWN])) = Some 2
       \<and> map_option idx (polling_state
            (selection [''A'', ''B'', ''C''] active passive True [DOWN, DOWN, DOWN])) = Some 0
       \<and> map_option idx (polling_state
            (selection [''A'', ''B'', ''C''] active passive True [DOWN, DOWN, DOWN, DOWN]))
           = Some 1"
  using sel_down_idx [OF assms] sel_up_idx [OF assms] sel_enter [OF assms]
  by (simp add: sel_step_def key_distinct sel_run_ABC)

theorem selection_transitions_witness:
  "0 \<le> idx \<lparr>idx = 2, sel_out = []\<rparr>
   \<and> idx \<lparr>idx = 2, sel_out = []\<rparr> < int (length [''A'', ''B'', ''C''])
   \<and> (\<exists>s'. sel_step [''A'', ''B'', ''C''] '' >'' ''> '' True \<lparr>idx = 2, sel_out = []\<rparr> DOWN
              = Continue s' \<and> idx s' = 0)
   \<and> (\<exists>s'. sel_step [''A'', ''B'', ''C''] '' >'' ''> '' False \<lparr>idx = 2, sel_out = []\<rparr> UP
              = Continue s' \<and> idx s' = 1)"
  using selection_transitions
          [of "\<lparr>idx = 2, sel_out = []\<rparr>" "[''A'', ''B'', ''C'']" "'' >''" "''> ''" True]
        selection_transitions
          [of "\<lparr>idx = 2, sel_out = []\<rparr>" "[''A'', ''B'', ''C'']" "'' >''" "''> ''" False]
  by simp

text \<open>
  C3, as stated, fails on its example: with wrap, the fourth Down from index 0 over the
  options A, B, C leaves the highlight at index 1, not 0.
\<close>

theorem selection_wrap_fourth_down_counterexample:
  "map_option idx (polling_state
     (selection [''A'', ''B'', ''C''] '' >'' ''> '' True [DOWN, DOWN, DOWN, DOWN])) = Some 1
   \<and> map_option idx (polling_state
     (selection [''A'', ''B'', ''C''] '' >'' ''> '' True [DOWN, DOWN, DOWN, DOWN])) \<noteq> Some 0"
  by (simp add: selection_def sel_init_def sel_step_def sel_down_def sel_up_def
        sel_write_def py_index_def Let_def key_distinct)

text \<open>
  C5. \<^verbatim>\<open>selection\<close> called without options raises \<^verbatim>\<open>TypeError\<close>, and nothing
  has been written to the output when it does, whatever keys are pending.
\<close>

theorem selection_no_options:
  "selection [] active passive wrap keys = Raised TypeError []"
  by (simp add: selection_def)

section \<open>Properties of the registry\<close>

lemma py_slice_from_nat [simp]: "py_slice_from xs (int k) = drop k xs"
  by (simp add: py_slice_from_def Let_def min_def)

lemma clear_lines_fields [simp]:
  "regestry (clear_lines d flush) = regestry d"
  "lines (clear_lines d flush) = lines d"
  "d_written (clear_lines d flush) = d_written d"
  "prompt (clear_lines d flush) = prompt d"
  "running (clear_lines d flush) = running d"
  "thread (clear_lines d flush) = thread d"
  by (simp_all add: clear_lines_def d_write_def)

lemma render_lines_fields [simp]:
  "regestry (render_lines d init) = regestry d"
  "lines (render_lines d init) = lines d"
  "d_written (render_lines d init) = d_written d"
  "prompt (render_lines d init) = prompt d"
  "running (render_lines d init) = running d"
  "thread (render_lines d init) = thread d"
  by (simp_all add: render_lines_def d_write_def Let_def)

lemma push_returns:
  "raised_error (push d (PStr s) flush) = None"
  "raised_error (push d (PAtom a) flush) = None"
  "raised_error (push d (PLines ls) flush) = None"
  by (simp_all add: push_def push_flush_def Let_def)

lemma push_regestry:
  "regestry (state_after (push d (PStr s) flush)) = tl (regestry d @ [s])"
  "regestry (state_after (push d (PAtom a) flush)) = tl (regestry d @ [a])"
  "regestry (state_after (push d (PLines ls) flush)) = drop (length ls) (regestry d @ ls)"
  by (simp_all add: push_def push_flush_def Let_def)

lemma push_unsized:
  "push d (PIter ls) flush
     = Raises TypeError ((clear_lines d False)\<lparr>regestry := regestry d @ ls\<rparr>)"
  by (simp add: push_def Let_def)

lemma push_lines [simp]: "lines (state_after (push d o' flush)) = lines d"
  by (cases o') (simp_all add: push_def push_flush_def Let_def)

lemma push_length:
  "sized_op (Push o' flush) \<Longrightarrow>
   length (regestry (state_after (push d o' flush))) = length (regestry d)"
  by (cases o') (simp_all add: push_regestry)

lemma clear_regestry: "regestry (clear d flush) = replicate (nat (lines d)) []"
  by (simp add: clear_def Let_def)

lemma clear_keeps_lines [simp]: "lines (clear d flush) = lines d"
  by (simp add: clear_def Let_def)

lemma get_fields [simp]:
  "regestry (snd (get d dispatch)) = regestry d"
  "lines (snd (get d dispatch)) = lines d"
  by (simp_all add: get_def d_write_def Let_def)

lemma stop_fields [simp]:
  "regestry (stop d dispatch) = regestry d"
  "lines (stop d dispatch) = lines d"
  by (simp_all add: stop_def Let_def)

lemma apply_op_lines [simp]: "lines (apply_op d op) = lines d"
  by (cases op) simp_all

lemma apply_op_inv:
  "sized_op op \<Longrightarrow> length (regestry d) = nat (lines d) \<Longrightarrow>
   length (regestry (apply_op d op)) = nat (lines (apply_op d op))"
  by (cases op) (simp_all add: push_length clear_regestry)

lemma run_ops_inv:
  "\<forall>op \<in> set ops. sized_op op \<Longrightarrow> length (regestry d) = nat (lines d) \<Longrightarrow>
   length (regestry (run_ops d ops)) = nat (lines d) \<and> lines (run_ops d ops) = lines d"
  unfolding run_ops_def
proof (induction ops arbitrary: d)
  case Nil
  then show ?case by simp
next
  case (Cons op ops)
  from Cons.prems have "sized_op op" and rest: "\<forall>op \<in> set ops. sized_op op"
    by simp_all
  from apply_op_inv [OF this(1) Cons.prems(2)]
  have "length (regestry (apply_op d op)) = nat (lines (apply_op d op))" .
  from Cons.IH [OF rest this] show ?case by simp
qed

lemma IODisplay_inv: "length (regestry (IODisplay p n doe)) = nat (lines (IODisplay p n doe))"
  by (simp add: IODisplay_def)

lemma push_xyz:
  "regestry (state_after (push (state_after (push (state_after (push (IODisplay p 2 doe)
       (PStr ''x'') f1)) (PStr ''y'') f2)) (PStr ''z'') f3))
     = [''y'', ''z'']"
  by (simp add: push_regestry IODisplay_def numeral_2_eq_2)

text \<open>
  As long as no iterable without a length is pushed, a display constructed with capacity
  \<open>n\<close> (not negative) has a registry of length exactly \<open>n\<close> after every sequence of
  calls of \<^verbatim>\<open>push\<close>, \<^verbatim>\<open>clear\<close>, \<^verbatim>\<open>get\<close> and \<^verbatim>\<open>stop\<close>. On any display,
  \<^verbatim>\<open>push\<close> of a list of \<open>k\<close> lines appends them at the back and drops \<open>k\<close> lines from
  the front, \<^verbatim>\<open>push\<close> of a value that is not iterable appends its string and drops one
  line from the front, both without changing the length, and \<^verbatim>\<open>clear\<close> resets the
  \<open>n\<close> slots to empty strings. With capacity 2, pushing x, y and z leaves the registry
  y, z.
\<close>

lemma registry_length_sized:
  assumes "0 \<le> n" and "\<forall>op \<in> set ops. sized_op op"
  shows "int (length (regestry (run_ops (IODisplay p n doe) ops))) = n
    \<and> regestry (state_after (push d (PLines ls) flush)) = drop (length ls) (regestry d @ ls)
    \<and> length (regestry (state_after (push d (PLines ls) flush))) = length (regestry d)
    \<and> regestry (state_after (push d (PAtom a) flush)) = tl (regestry d @ [a])
    \<and> length (regestry (state_after (push d (PAtom a) flush))) = length (regestry d)
    \<and> regestry (clear (run_ops (IODisplay p n doe) ops) flush) = replicate (nat n) []
    \<and> length (regestry (clear (run_ops (IODisplay p n doe) ops) flush))
        = length (regestry (run_ops (IODisplay p n doe) ops))
    \<and> regestry (state_after (push (state_after (push (state_after (push (IODisplay p 2 doe)
          (PStr ''x'') f1)) (PStr ''y'') f2)) (PStr ''z'') f3)) = [''y'', ''z'']"
  using assms(1) run_ops_inv [OF assms(2) IODisplay_inv, of p n doe]
  by (simp add: push_regestry clear_regestry push_xyz IODisplay_def)

lemma registry_length_sized_example:
  "regestry (run_ops (IODisplay ''> '' 2 True)
        [Push (PLines [''a'', ''b'', ''c'']) True, Clear False, Push (PAtom ''7'') True])
      = ['''', ''7'']"
  by code_simp

text \<open>
  C2 at a display of capacity 2 and the push of a generator that yields the one line a:
  \<^verbatim>\<open>push\<close> raises \<^verbatim>\<open>TypeError\<close> at \<^verbatim>\<open>len(o)\<close> after the registry has been
  extended, and leaves a registry of three lines, from which nothing was dropped.
\<close>

theorem push_unsized_iterable_grows_registry:
  "raised_error (push (IODisplay ''> '' 2 True) (PIter [''a'']) True) = Some TypeError
   \<and> regestry (state_after (push (IODisplay ''> '' 2 True) (PIter [''a'']) True))
       = ['''', '''', ''a'']
   \<and> length (regestry (state_after (push (IODisplay ''> '' 2 True) (PIter [''a'']) True))) = 3
   \<and> lines (state_after (push (IODisplay ''> '' 2 True) (PIter [''a'']) True)) = 2"
  by code_simp

text \<open>
  C10. \<^verbatim>\<open>push\<close> of a string, of any length, returns and appends the string as one
  registry line and drops one line from the front; the length of the registry does not
  change, and the characters of the string are not spread over the slots.
\<close>

theorem push_string_atomic:
  "raised_error (push d (PStr s) flush) = None
   \<and> regestry (state_after (push d (PStr s) flush)) = tl (regestry d @ [s])
   \<and> length (regestry (state_after (push d (PStr s) flush))) = length (regestry d)"
  by (simp add: push_regestry push_returns)

section \<open>Properties of the edit loops\<close>

lemma edit_key_distinct:
  "BACKSPACE \<noteq> ENTER" "BACKSPACE \<noteq> RIGHT" "BACKSPACE \<noteq> LEFT" "BACKSPACE \<noteq> SPECIAL"
  "SPECIAL \<noteq> ENTER" "SPECIAL \<noteq> RIGHT" "SPECIAL \<noteq> LEFT" "SPECIAL \<noteq> BACKSPACE"
  "RIGHT \<noteq> ENTER" "LEFT \<noteq> ENTER" "LEFT \<noteq> RIGHT" "RIGHT \<noteq> LEFT"
  by (simp_all add: BACKSPACE_def ENTER_def RIGHT_def LEFT_def SPECIAL_def)

lemma length_py_insert [simp]: "length (py_insert xs i x) = Suc (length xs)"
  by (simp add: py_insert_def Let_def)

lemma py_pop_length:
  "py_pop xs i = Inr ys \<Longrightarrow> int (length ys) = int (length xs) - 1"
  by (auto simp add: py_pop_def Let_def split: if_splits)

lemma py_pop_in_range:
  "0 \<le> i \<Longrightarrow> i < int (length xs) \<Longrightarrow>
   py_pop xs i = Inr (take (nat i) xs @ drop (Suc (nat i)) xs)"
  by (simp add: py_pop_def)

lemma iw_write_letter_inv:
  assumes "0 \<le> curr s" "curr s \<le> int (length (written s))"
    and "iw_write_letter s k = Continue s'"
  shows "0 \<le> curr s' \<and> curr s' \<le> int (length (written s'))"
  using assms by (auto simp add: iw_write_letter_def Let_def split: sum.splits)

lemma iw_backspace_inv:
  assumes "0 \<le> curr s" "curr s \<le> int (length (written s))"
    and "iw_backspace s = Continue s'"
  shows "0 \<le> curr s' \<and> curr s' \<le> int (length (written s'))"
  using assms
  by (auto simp add: iw_backspace_def Let_def split: sum.splits if_splits dest!: py_pop_length)

lemma iw_step_cases:
  assumes "iw_step s k = Continue s'"
  shows "(s' = s\<lparr>last_key := Some k, iw_out := iw_out s @ ANSI_RIGHT, curr := curr s + 1\<rparr>
            \<and> curr s < int (length (written s)))
       \<or> (s' = s\<lparr>last_key := Some k, curr := curr s - 1, iw_out := iw_out s @ ANSI_LEFT\<rparr>
            \<and> 0 < curr s)
       \<or> s' = s\<lparr>last_key := Some k\<rparr>
       \<or> iw_backspace (s\<lparr>last_key := Some k\<rparr>) = Continue s'
       \<or> iw_write_letter (s\<lparr>last_key := Some k\<rparr>) k = Continue s'"
  using assms unfolding iw_step_def Let_def
  by (simp split: if_splits)

lemma iw_step_inv:
  assumes "0 \<le> curr s" "curr s \<le> int (length (written s))"
    and "iw_step s k = Continue s'"
  shows "0 \<le> curr s' \<and> curr s' \<le> int (length (written s'))"
proof -
  let ?s = "s\<lparr>last_key := Some k\<rparr>"
  have inv: "0 \<le> curr ?s" "curr ?s \<le> int (length (written ?s))"
    using assms(1,2) by simp_all
  from iw_step_cases [OF assms(3)] consider
      (move_right) "s' = s\<lparr>last_key := Some k, iw_out := iw_out s @ ANSI_RIGHT, curr := curr s + 1\<rparr>"
              "curr s < int (length (written s))"
    | (move_left) "s' = s\<lparr>last_key := Some k, curr := curr s - 1, iw_out := iw_out s @ ANSI_LEFT\<rparr>"
              "0 < curr s"
    | (same) "s' = ?s"
    | (bksp) "iw_backspace ?s = Continue s'"
    | (letter) "iw_write_letter ?s k = Continue s'"
    by blast
  then show ?thesis
  proof cases
    case move_right
    then show ?thesis using assms(1,2) by simp
  next
    case move_left
    then show ?thesis using assms(1,2) by simp
  next
    case same
    then show ?thesis using inv by simp
  next
    case bksp
    from iw_backspace_inv [OF inv this] show ?thesis .
  next
    case letter
    from iw_write_letter_inv [OF inv this] show ?thesis .
  qed
qed

lemma iw_trace_inv:
  assumes "0 \<le> curr s" "curr s \<le> int (length (written s))"
  shows "\<forall>t \<in> set (iw_trace s keys). 0 \<le> curr t \<and> curr t \<le> int (length (written t))"
  using assms
proof (induction keys arbitrary: s)
  case Nil
  then show ?case by simp
next
  case (Cons k ks)
  show ?case
  proof (cases "iw_step s k")
    case (Continue s')
    from iw_step_inv [OF Cons.prems this] have "0 \<le> curr s'" "curr s' \<le> int (length (written s'))"
      by simp_all
    from Cons.IH [OF this] Cons.prems Continue show ?thesis by simp
  next
    case (Return r s')
    then show ?thesis using Cons.prems by simp
  next
    case (Raise e s')
    then show ?thesis using Cons.prems by simp
  qed
qed

lemma iw_backspace_noop:
  "written s = [] \<or> curr s \<le> 0 \<Longrightarrow>
   iw_step s BACKSPACE = Continue (s\<lparr>last_key := Some BACKSPACE\<rparr>)"
  by (auto simp add: iw_step_def iw_backspace_def edit_key_distinct Let_def)

lemma ds_write_letter_inv:
  assumes "0 \<le> l_curr st" "l_curr st \<le> int (length (d_written (disp st)))"
    and "ds_write_letter st k = Continue st'"
  shows "0 \<le> l_curr st' \<and> l_curr st' \<le> int (length (d_written (disp st')))"
  using assms by (auto simp add: ds_write_letter_def d_write_def Let_def split: sum.splits)

lemma ds_backspace_inv:
  assumes "0 \<le> l_curr st" "l_curr st \<le> int (length (d_written (disp st)))"
    and "ds_backspace st = Continue st'"
  shows "0 \<le> l_curr st' \<and> l_curr st' \<le> int (length (d_written (disp st')))"
  using assms
  by (auto simp add: ds_backspace_def d_write_def Let_def
        split: sum.splits if_splits dest!: py_pop_length)

lemma ds_enter_inv:
  assumes "ds_enter callback st = Continue st'"
  shows "0 \<le> l_curr st' \<and> l_curr st' \<le> int (length (d_written (disp st')))"
  using assms by (auto simp add: ds_enter_def Let_def split: prod.splits)

lemma ds_step_cases:
  assumes "ds_step callback st k = Continue st'"
  shows "ds_enter callback (st\<lparr>l_last_key := Some k\<rparr>) = Continue st'
       \<or> (st' = st\<lparr>l_last_key := Some k, disp := d_write ANSI_RIGHT (disp st),
                     l_curr := l_curr st + 1\<rparr>
            \<and> l_curr st < int (length (d_written (disp st))))
       \<or> (st' = st\<lparr>l_last_key := Some k, l_curr := l_curr st - 1,
                     disp := d_write ANSI_LEFT (disp st)\<rparr>
            \<and> 0 < l_curr st)
       \<or> st' = st\<lparr>l_last_key := Some k\<rparr>
       \<or> ds_backspace (st\<lparr>l_last_key := Some k\<rparr>) = Continue st'
       \<or> ds_write_letter (st\<lparr>l_last_key := Some k\<rparr>) k = Continue st'"
  using assms unfolding ds_step_def Let_def
  by (simp split: if_splits)

lemma ds_step_inv:
  assumes "0 \<le> l_curr st" "l_curr st \<le> int (length (d_written (disp st)))"
    and "ds_step callback st k = Continue st'"
  shows "0 \<le> l_curr st' \<and> l_curr st' \<le> int (length (d_written (disp st')))"
proof -
  let ?st = "st\<lparr>l_last_key := Some k\<rparr>"
  have inv: "0 \<le> l_curr ?st" "l_curr ?st \<le> int (length (d_written (disp ?st)))"
    using assms(1,2) by simp_all
  from ds_step_cases [OF assms(3)] consider
      (enter) "ds_enter callback ?st = Continue st'"
    | (move_right) "st' = st\<lparr>l_last_key := Some k, disp := d_write ANSI_RIGHT (disp st),
                     l_curr := l_curr st + 1\<rparr>"
              "l_curr st < int (length (d_written (disp st)))"
    | (move_left) "st' = st\<lparr>l_last_key := Some k, l_curr := l_curr st - 1,
                     disp := d_write ANSI_LEFT (disp st)\<rparr>"
              "0 < l_curr st"
    | (same) "st' = ?st"
    | (bksp) "ds_backspace ?st = Continue st'"
    | (letter) "ds_write_letter ?st k = Continue st'"
    by blast
  then show ?thesis
  proof cases
    case enter
    from ds_enter_inv [OF this] show ?thesis .
  next
    case move_right
    then show ?thesis using assms(1,2) by (simp add: d_write_def)
  next
    case move_left
    then show ?thesis using assms(1,2) by (simp add: d_write_def)
  next
    case same
    then show ?thesis using inv by simp
  next
    case bksp
    from ds_backspace_inv [OF inv this] show ?thesis .
  next
    case letter
    from ds_write_letter_inv [OF inv this] show ?thesis .
  qed
qed

lemma ds_trace_Cons_subset:
  "set (ds_trace callback st (k # ks)) \<subseteq>
     insert st (case ds_step callback st k of
                  Continue st' \<Rightarrow> set (ds_trace callback st' ks)
                | Return r st' \<Rightarrow> {}
                | Raise e st' \<Rightarrow> {})"
  apply (subst ds_trace.simps)
  apply (cases "running (disp st)")
   apply (auto split: step.splits)
  done

lemma ds_trace_inv:
  assumes "0 \<le> l_curr st" "l_curr st \<le> int (length (d_written (disp st)))"
  shows "\<forall>t \<in> set (ds_trace callback st keys).
           0 \<le> l_curr t \<and> l_curr t \<le> int (length (d_written (disp t)))"
  using assms
proof (induction keys arbitrary: st)
  case Nil
  then show ?case by simp
next
  case (Cons k ks)
  show ?case
  proof (cases "ds_step callback st k")
    case (Continue st')
    from ds_step_inv [OF Cons.prems this]
    have "0 \<le> l_curr st'" "l_curr st' \<le> int (length (d_written (disp st')))"
      by simp_all
    from Cons.IH [OF this]
    have "\<forall>t \<in> set (ds_trace callback st' ks).
           0 \<le> l_curr t \<and> l_curr t \<le> int (length (d_written (disp t)))" .
    moreover have "set (ds_trace callback st (k # ks))
        \<subseteq> insert st (set (ds_trace callback st' ks))"
      using ds_trace_Cons_subset [of callback st k ks] by (simp only: Continue step.case)
    ultimately show ?thesis using Cons.prems by blast
  next
    case (Return r st')
    have "set (ds_trace callback st (k # ks)) \<subseteq> {st}"
      using ds_trace_Cons_subset [of callback st k ks] by (simp only: Return step.case)
    then show ?thesis using Cons.prems by blast
  next
    case (Raise e st')
    have "set (ds_trace callback st (k # ks)) \<subseteq> {st}"
      using ds_trace_Cons_subset [of callback st k ks] by (simp only: Raise step.case)
    then show ?thesis using Cons.prems by blast
  qed
qed

lemma ds_backspace_noop:
  "d_written (disp st) = [] \<or> l_curr st \<le> 0 \<Longrightarrow>
   ds_step callback st BACKSPACE = Continue (st\<lparr>l_last_key := Some BACKSPACE\<rparr>)"
  by (auto simp add: ds_step_def ds_backspace_def edit_key_distinct Let_def)

lemma iw_init_inv:
  "0 \<le> curr (iw_init p e)"
  "curr (iw_init p e) \<le> int (length (written (iw_init p e)))"
  by (simp_all add: iw_init_def)

lemma ds_init_inv:
  "0 \<le> l_curr (ds_init d)"
  "l_curr (ds_init d) \<le> int (length (d_written (disp (ds_init d))))"
  by (simp_all add: ds_init_def)

lemma iw_demo:
  "map (\<lambda>s. (curr s, written s))
        (iw_trace (iw_init ''> '' ''ab'') [SPECIAL, LEFT, CHR ''x'', BACKSPACE, BACKSPACE, BACKSPACE])
    = [(2, ''ab''), (2, ''ab''), (1, ''ab''), (2, ''axb''), (1, ''ab''), (0, ''b''), (0, ''b'')]"
  by code_simp

lemma ds_demo:
  "map (\<lambda>st. (l_curr st, d_written (disp st)))
        (ds_trace None (ds_init (IODisplay ''> '' 2 True))
           [CHR ''a'', CHR ''b'', SPECIAL, LEFT, CHR ''x'', BACKSPACE, ENTER, CHR ''M''])
    = [(0, ''''), (1, ''a''), (2, ''ab''), (2, ''ab''), (1, ''ab''), (2, ''axb''), (1, ''ab''),
       (0, ''''), (1, ''M'')]"
  by code_simp

text \<open>
  C1. In every state in which the loop of \<^verbatim>\<open>input_write\<close> tests for a key, from the
  initial edit text on and for every sequence of keys, and in every such state of the
  loop of \<^verbatim>\<open>IODisplay._start\<close>, for every callback and every sequence of keys, the
  cursor index satisfies \<open>0 \<le> curr \<le> len(written)\<close>.
\<close>

theorem cursor_within_content:
  "(\<forall>s \<in> set (iw_trace (iw_init p e) keys).
      0 \<le> curr s \<and> curr s \<le> int (length (written s)))
   \<and> (\<forall>st \<in> set (ds_trace callback (ds_init d) keys).
      0 \<le> l_curr st \<and> l_curr st \<le> int (length (d_written (disp st))))"
  using iw_trace_inv [OF iw_init_inv] ds_trace_inv [OF ds_init_inv] by blast

theorem cursor_within_content_witness:
  "map (\<lambda>s. (curr s, written s))
        (iw_trace (iw_init ''> '' ''ab'')
           [SPECIAL, LEFT, CHR ''x'', BACKSPACE, BACKSPACE, BACKSPACE])
    = [(2, ''ab''), (2, ''ab''), (1, ''ab''), (2, ''axb''), (1, ''ab''), (0, ''b''), (0, ''b'')]
   \<and> 0 \<le> curr (last (iw_trace (iw_init ''> '' ''ab'')
           [SPECIAL, LEFT, CHR ''x'', BACKSPACE, BACKSPACE, BACKSPACE]))
   \<and> curr (last (iw_trace (iw_init ''> '' ''ab'')
           [SPECIAL, LEFT, CHR ''x'', BACKSPACE, BACKSPACE, BACKSPACE]))
       \<le> int (length (written (last (iw_trace (iw_init ''> '' ''ab'')
           [SPECIAL, LEFT, CHR ''x'', BACKSPACE, BACKSPACE, BACKSPACE]))))
   \<and> map (\<lambda>st. (l_curr st, d_written (disp st)))
        (ds_trace None (ds_init (IODisplay ''> '' 2 True))
           [CHR ''a'', CHR ''b'', SPECIAL, LEFT, CHR ''x'', BACKSPACE, ENTER, CHR ''M''])
    = [(0, ''''), (1, ''a''), (2, ''ab''), (2, ''ab''), (1, ''ab''), (2, ''axb''), (1, ''ab''),
       (0, ''''), (1, ''M'')]
   \<and> 0 \<le> l_curr (last (ds_trace None (ds_init (IODisplay ''> '' 2 True))
           [CHR ''a'', CHR ''b'', SPECIAL, LEFT, CHR ''x'', BACKSPACE, ENTER, CHR ''M'']))
   \<and> l_curr (last (ds_trace None (ds_init (IODisplay ''> '' 2 True))
           [CHR ''a'', CHR ''b'', SPECIAL, LEFT, CHR ''x'', BACKSPACE, ENTER, CHR ''M'']))
       \<le> int (length (d_written (disp (last (ds_trace None (ds_init (IODisplay ''> '' 2 True))
           [CHR ''a'', CHR ''b'', SPECIAL, LEFT, CHR ''x'', BACKSPACE, ENTER, CHR ''M''])))))"
proof -
  let ?tr = "iw_trace (iw_init ''> '' ''ab'')
               [SPECIAL, LEFT, CHR ''x'', BACKSPACE, BACKSPACE, BACKSPACE]"
  let ?dt = "ds_trace None (ds_init (IODisplay ''> '' 2 True))
               [CHR ''a'', CHR ''b'', SPECIAL, LEFT, CHR ''x'', BACKSPACE, ENTER, CHR ''M'']"
  have ne: "?tr \<noteq> []" "?dt \<noteq> []"
    using iw_demo ds_demo by auto
  have "last ?tr \<in> set ?tr" and "last ?dt \<in> set ?dt"
    by (rule last_in_set [OF ne(1)], rule last_in_set [OF ne(2)])
  then show ?thesis
    using cursor_within_content
            [of "''> ''" "''ab''" "[SPECIAL, LEFT, CHR ''x'', BACKSPACE, BACKSPACE, BACKSPACE]"
                None "IODisplay ''> '' 2 True"]
          cursor_within_content
            [of "''> ''" "''ab''"
                "[CHR ''a'', CHR ''b'', SPECIAL, LEFT, CHR ''x'', BACKSPACE, ENTER, CHR ''M'']"
                None "IODisplay ''> '' 2 True"]
          iw_demo ds_demo
    by blast
qed

text \<open>
  C6. Backspace on an empty buffer, or with the cursor at index 0, changes neither the
  content nor the cursor (nor the output): the iteration only records the key as the
  previous key, in \<^verbatim>\<open>input_write\<close> and in the loop of the display.
\<close>

theorem backspace_at_left_noop:
  "(written s = [] \<or> curr s = 0 \<longrightarrow>
      iw_step s BACKSPACE = Continue (s\<lparr>last_key := Some BACKSPACE\<rparr>))
   \<and> (d_written (disp st) = [] \<or> l_curr st = 0 \<longrightarrow>
      ds_step callback st BACKSPACE = Continue (st\<lparr>l_last_key := Some BACKSPACE\<rparr>))"
  using iw_backspace_noop [of s] ds_backspace_noop [of st callback] by auto

theorem backspace_at_left_noop_witness:
  "curr \<lparr>written = ''ab'', curr = 0, last_key = None, iw_out = ''> ab''\<rparr> = 0
   \<and> iw_step \<lparr>written = ''ab'', curr = 0, last_key = None, iw_out = ''> ab''\<rparr> BACKSPACE
       = Continue \<lparr>written = ''ab'', curr = 0, last_key = Some BACKSPACE, iw_out = ''> ab''\<rparr>
   \<and> d_written (disp \<lparr>disp = IODisplay ''> '' 2 True, l_curr = 0, l_last_key = None\<rparr>) = []
   \<and> ds_step None \<lparr>disp = IODisplay ''> '' 2 True, l_curr = 0, l_last_key = None\<rparr> BACKSPACE
       = Continue \<lparr>disp = IODisplay ''> '' 2 True, l_curr = 0, l_last_key = Some BACKSPACE\<rparr>"
  using backspace_at_left_noop
    [of "\<lparr>written = ''ab'', curr = 0, last_key = None, iw_out = ''> ab''\<rparr>"
        "\<lparr>disp = IODisplay ''> '' 2 True, l_curr = 0, l_last_key = None\<rparr>" None]
  by (simp add: IODisplay_def)

section \<open>Properties of the key decoding\<close>











lemma ih_step_append:
  assumes "(of_char k :: nat) < 128" "k \<noteq> ENTER" "k \<noteq> BACKSPACE" "k \<noteq> SPECIAL"
    and "\<not> (k \<in> set IGNORE \<and> h_last_key s = Some SPECIAL)"
  shows "ih_step s k = Continue (s\<lparr>h_last_key := Some k, h_written := h_written s @ [k]\<rparr>)"
  using assms unfolding ih_step_def Let_def
  by (auto simp add: decode_def)











section \<open>Properties of input_hidden\<close>

lemma ih_step_out:
  "ih_step s k = Continue s' \<Longrightarrow> h_out s' = h_out s"
  "ih_step s k = Raise e s' \<Longrightarrow> h_out s' = h_out s \<and> e = UnicodeDecodeError"
  "ih_step s k = Return r s' \<Longrightarrow> h_out s' = h_out s @ [LF] \<and> k = ENTER"
  unfolding ih_step_def Let_def
  by (auto split: if_splits sum.splits simp add: decode_def)

lemma ih_loop_output:
  "ih_output (ih_loop s keys) = h_out s \<or> ih_output (ih_loop s keys) = h_out s @ [LF]"
proof (induction keys arbitrary: s)
  case Nil
  show ?case by simp
next
  case (Cons k ks)
  show ?case
  proof (cases "ih_step s k")
    case (Continue s')
    with Cons.IH [of s'] ih_step_out(1) [OF Continue] show ?thesis by simp
  next
    case (Return r s')
    with ih_step_out(3) [OF Return] show ?thesis by simp
  next
    case (Raise e s')
    with ih_step_out(2) [OF Raise] show ?thesis by simp
  qed
qed

lemma ih_step_ascii_continues:
  assumes "(of_char k :: nat) < 128" "k \<noteq> ENTER"
  shows "\<exists>s'. ih_step s k = Continue s' \<and> h_out s' = h_out s"
  using assms unfolding ih_step_def Let_def
  by (auto simp add: decode_def)

lemma ih_step_enter:
  "ih_step s ENTER = Return (h_written s) (s\<lparr>h_last_key := Some ENTER, h_out := h_out s @ [LF]\<rparr>)"
  unfolding ih_step_def Let_def by simp

lemma ih_loop_returns:
  assumes "ENTER \<notin> set ks" and "\<forall>k \<in> set ks. (of_char k :: nat) < 128"
  shows "\<exists>typed. ih_loop s (ks @ ENTER # rest) = Returned typed (h_out s @ [LF])"
  using assms
proof (induction ks arbitrary: s)
  case Nil
  show ?case by (simp add: ih_step_enter)
next
  case (Cons k ks)
  from Cons.prems have "(of_char k :: nat) < 128" "k \<noteq> ENTER" by auto
  from ih_step_ascii_continues [OF this, of s]
  obtain s' where s': "ih_step s k = Continue s'" "h_out s' = h_out s" by blast
  from Cons.prems have "ENTER \<notin> set ks" "\<forall>k \<in> set ks. (of_char k :: nat) < 128" by auto
  from Cons.IH [OF this, of s'] s' show ?case by simp
qed

lemma ih_loop_returns_typed:
  assumes "\<forall>k \<in> set ks. (of_char k :: nat) < 128 \<and> k \<notin> set IGNORE
             \<and> k \<noteq> ENTER \<and> k \<noteq> BACKSPACE \<and> k \<noteq> SPECIAL"
  shows "ih_loop s (ks @ ENTER # rest) = Returned (h_written s @ ks) (h_out s @ [LF])"
  using assms
proof (induction ks arbitrary: s)
  case Nil
  show ?case by (simp add: ih_step_enter)
next
  case (Cons k ks)
  from Cons.prems have k: "(of_char k :: nat) < 128" "k \<noteq> ENTER" "k \<noteq> BACKSPACE" "k \<noteq> SPECIAL"
      "\<not> (k \<in> set IGNORE \<and> h_last_key s = Some SPECIAL)"
    by auto
  from Cons.prems have "\<forall>k \<in> set ks. (of_char k :: nat) < 128 \<and> k \<notin> set IGNORE
             \<and> k \<noteq> ENTER \<and> k \<noteq> BACKSPACE \<and> k \<noteq> SPECIAL"
    by auto
  from Cons.IH [OF this, of "s\<lparr>h_last_key := Some k, h_written := h_written s @ [k]\<rparr>"]
  show ?case by (simp add: ih_step_append [OF k])
qed

text \<open>
  C8, as amended. When the keys typed before Enter are ASCII bytes, \<^verbatim>\<open>input_hidden\<close>
  returns and the output is exactly the prompt followed by one newline, whatever was
  typed; when none of them is Backspace, the prefix or one of the codes M, K, H, P, the
  value returned is the typed text itself. For every sequence of keys, the output is the
  prompt, or the prompt followed by one newline: no typed key is echoed.
\<close>

theorem input_hidden_no_echo:
  "(ENTER \<notin> set ks \<and> (\<forall>k \<in> set ks. (of_char k :: nat) < 128) \<longrightarrow>
      (\<exists>typed. input_hidden p (ks @ ENTER # rest) = Returned typed (p @ [LF])))
   \<and> ((\<forall>k \<in> set ks. (of_char k :: nat) < 128 \<and> k \<notin> set IGNORE
             \<and> k \<noteq> ENTER \<and> k \<noteq> BACKSPACE \<and> k \<noteq> SPECIAL) \<longrightarrow>
      input_hidden p (ks @ ENTER # rest) = Returned ks (p @ [LF]))
   \<and> (ih_output (input_hidden p keys) = p \<or> ih_output (input_hidden p keys) = p @ [LF])"
  using ih_loop_returns [of ks "ih_init p" rest] ih_loop_output [of "ih_init p" keys]
    ih_loop_returns_typed [of ks "ih_init p" rest]
  by (simp add: input_hidden_def ih_init_def)

theorem input_hidden_no_echo_witness:
  "input_hidden ''pw: '' ([CHR ''a'', SPECIAL, CHR ''H'', BACKSPACE, CHR ''P''] @ ENTER # [CHR ''z''])
     = Returned ''P'' (''pw: '' @ [LF])
   \<and> (\<exists>typed. input_hidden ''pw: '' ([CHR ''a'', SPECIAL, CHR ''H'', BACKSPACE, CHR ''P'']
                     @ ENTER # [CHR ''z''])
         = Returned typed (''pw: '' @ [LF]))
   \<and> input_hidden ''pw: '' (''s3cret'' @ ENTER # []) = Returned ''s3cret'' (''pw: '' @ [LF])"
proof -
  have "input_hidden ''pw: '' ([CHR ''a'', SPECIAL, CHR ''H'', BACKSPACE, CHR ''P''] @ ENTER # [CHR ''z''])
     = Returned ''P'' (''pw: '' @ [LF])"
    by code_simp
  moreover have "ENTER \<notin> set [CHR ''a'', SPECIAL, CHR ''H'', BACKSPACE, CHR ''P'']"
    by (simp add: ENTER_def SPECIAL_def BACKSPACE_def)
  moreover have "\<forall>k \<in> set [CHR ''a'', SPECIAL, CHR ''H'', BACKSPACE, CHR ''P''].
                   (of_char k :: nat) < 128"
    by (simp add: SPECIAL_def BACKSPACE_def)
  moreover have "\<forall>k \<in> set ''s3cret''. (of_char k :: nat) < 128 \<and> k \<notin> set IGNORE
             \<and> k \<noteq> ENTER \<and> k \<noteq> BACKSPACE \<and> k \<noteq> SPECIAL"
    by (simp add: IGNORE_def RIGHT_def LEFT_def ENTER_def SPECIAL_def BACKSPACE_def)
  ultimately show ?thesis
    using input_hidden_no_echo
      [of "[CHR ''a'', SPECIAL, CHR ''H'', BACKSPACE, CHR ''P'']" "''pw: ''" "[CHR ''z'']"]
      input_hidden_no_echo [of "''s3cret''" "''pw: ''" "[]"]
    by blast
qed

text \<open>
  C8, as stated, fails on a key that is not ASCII: the byte \<^verbatim>\<open>0xF8\<close> makes
  \<^verbatim>\<open>key.decode()\<close> raise before Enter is read, with only the prompt written.
\<close>

theorem input_hidden_non_ascii_counterexample:
  "input_hidden ''pw: '' [CHR ''a'', CHR 0xF8, ENTER] = Raised UnicodeDecodeError ''pw: ''"
  by code_simp

section \<open>Properties of the redraw\<close>

lemma term_rows_up: "term_rows r (ANSI_UP @ t) = term_rows (r - 1) t"
  by (simp add: ANSI_UP_def)

lemma term_rows_down: "term_rows r (ANSI_DOWN @ t) = term_rows (r + 1) t"
  by (simp add: ANSI_DOWN_def ESC_def)

lemma term_rows_ups:
  "term_rows r (concat (replicate n ANSI_UP) @ t) = term_rows (r - int n) t"
  by (induction n arbitrary: r) (simp_all add: term_rows_up algebra_simps)

lemma term_rows_char:
  "c \<noteq> ESC \<Longrightarrow> term_rows r (c # cs) =
     (if c = LF then term_rows (r + 1) cs
      else if c = CR then term_rows r cs
      else (fst (term_rows r cs), r # snd (term_rows r cs)))"
proof (cases cs)
  case Nil
  then show ?thesis by simp
next
  case (Cons c2 cs2)
  assume "c \<noteq> ESC"
  then show ?thesis using Cons by (cases cs2) simp_all
qed

lemma term_rows_cr: "term_rows r (CR # t) = term_rows r t"
  by (simp add: term_rows_char CR_def ESC_def LF_def)

lemma term_rows_lf: "term_rows r (LF # t) = term_rows (r + 1) t"
  by (simp add: term_rows_char ESC_def LF_def)

lemma term_rows_plain:
  "plain s \<Longrightarrow> fst (term_rows r (s @ t)) = fst (term_rows r t)
     \<and> set (snd (term_rows r (s @ t))) \<subseteq> insert r (set (snd (term_rows r t)))"
proof (induction s)
  case Nil
  show ?case by auto
next
  case (Cons c s)
  then have c: "c \<noteq> ESC" "c \<noteq> LF" and s: "plain s"
    by (auto simp add: plain_def)
  from Cons.IH [OF s] c show ?case
    by (auto simp add: term_rows_char)
qed

lemma plain_spaces: "plain (py_mul '' '' n)"
  by (auto simp add: plain_def py_mul_def ESC_def LF_def)

lemma term_rows_clear:
  "fst (term_rows r (concat (map (\<lambda>element. py_mul '' '' (int (length element)) @ [CR] @ ANSI_DOWN) reg) @ t))
     = fst (term_rows (r + int (length reg)) t)
   \<and> set (snd (term_rows r (concat (map (\<lambda>element. py_mul '' '' (int (length element)) @ [CR] @ ANSI_DOWN) reg) @ t)))
       \<subseteq> {r ..< r + int (length reg)} \<union> set (snd (term_rows (r + int (length reg)) t))"
proof (induction reg arbitrary: r)
  case Nil
  show ?case by simp
next
  case (Cons e reg)
  let ?rest = "concat (map (\<lambda>element. py_mul '' '' (int (length element)) @ [CR] @ ANSI_DOWN) reg) @ t"
  have eq: "concat (map (\<lambda>element. py_mul '' '' (int (length element)) @ [CR] @ ANSI_DOWN) (e # reg)) @ t
        = py_mul '' '' (int (length e)) @ (CR # ANSI_DOWN @ ?rest)"
    by simp
  have tail: "term_rows r (CR # ANSI_DOWN @ ?rest) = term_rows (r + 1) ?rest"
    by (simp only: term_rows_cr term_rows_down)
  from term_rows_plain [OF plain_spaces, of r "int (length e)" "CR # ANSI_DOWN @ ?rest"]
  have "fst (term_rows r (py_mul '' '' (int (length e)) @ (CR # ANSI_DOWN @ ?rest)))
          = fst (term_rows (r + 1) ?rest)"
    and "set (snd (term_rows r (py_mul '' '' (int (length e)) @ (CR # ANSI_DOWN @ ?rest))))
          \<subseteq> insert r (set (snd (term_rows (r + 1) ?rest)))"
    by (simp_all only: tail)
  then have a: "fst (term_rows r (concat (map (\<lambda>element. py_mul '' '' (int (length element))
                  @ [CR] @ ANSI_DOWN) (e # reg)) @ t)) = fst (term_rows (r + 1) ?rest)"
    and b: "set (snd (term_rows r (concat (map (\<lambda>element. py_mul '' '' (int (length element))
                  @ [CR] @ ANSI_DOWN) (e # reg)) @ t)))
          \<subseteq> insert r (set (snd (term_rows (r + 1) ?rest)))"
    by (simp_all only: eq)
  have len: "r + int (length (e # reg)) = r + 1 + int (length reg)"
    by simp
  have c: "insert r {r + 1 ..< r + 1 + int (length reg)} \<subseteq> {r ..< r + 1 + int (length reg)}"
    by auto
  from Cons.IH [of "r + 1"]
  have ih1: "fst (term_rows (r + 1) ?rest) = fst (term_rows (r + 1 + int (length reg)) t)"
    and ih2: "set (snd (term_rows (r + 1) ?rest))
          \<subseteq> {r + 1 ..< r + 1 + int (length reg)}
              \<union> set (snd (term_rows (r + 1 + int (length reg)) t))"
    by simp_all
  from b ih2 c have "set (snd (term_rows r (concat (map (\<lambda>element.
              py_mul '' '' (int (length element)) @ [CR] @ ANSI_DOWN) (e # reg)) @ t)))
          \<subseteq> {r ..< r + 1 + int (length reg)}
              \<union> set (snd (term_rows (r + 1 + int (length reg)) t))"
    by blast
  with a ih1 show ?case
    by (simp only: len)
qed

lemma py_join_Cons: "ys \<noteq> [] \<Longrightarrow> py_join sep (l # ys) = l @ sep @ py_join sep ys"
  by (cases ys) simp_all

lemma term_rows_join:
  assumes "\<forall>l \<in> set reg. plain l" and "plain x"
  shows "fst (term_rows r (py_join [LF] (reg @ [x]))) = r + int (length reg)
   \<and> set (snd (term_rows r (py_join [LF] (reg @ [x])))) \<subseteq> {r .. r + int (length reg)}"
  using assms(1)
proof (induction reg arbitrary: r)
  case Nil
  from term_rows_plain [OF assms(2), of r "[]"] show ?case by simp
next
  case (Cons l reg)
  then have l: "plain l" and reg: "\<forall>l \<in> set reg. plain l" by simp_all
  let ?rest = "py_join [LF] (reg @ [x])"
  have eq: "py_join [LF] ((l # reg) @ [x]) = l @ (LF # ?rest)"
    by (simp add: py_join_Cons)
  from term_rows_plain [OF l, of r "LF # ?rest"]
  have "fst (term_rows r (l @ (LF # ?rest))) = fst (term_rows (r + 1) ?rest)"
    and "set (snd (term_rows r (l @ (LF # ?rest))))
          \<subseteq> insert r (set (snd (term_rows (r + 1) ?rest)))"
    by (simp_all only: term_rows_lf)
  then have a: "fst (term_rows r (py_join [LF] ((l # reg) @ [x]))) = fst (term_rows (r + 1) ?rest)"
    and b: "set (snd (term_rows r (py_join [LF] ((l # reg) @ [x]))))
          \<subseteq> insert r (set (snd (term_rows (r + 1) ?rest)))"
    by (simp_all only: eq)
  have len: "r + int (length (l # reg)) = r + 1 + int (length reg)"
    by simp
  have c: "insert r {r + 1 .. r + 1 + int (length reg)} \<subseteq> {r .. r + 1 + int (length reg)}"
    by auto
  from Cons.IH [OF reg, of "r + 1"]
  have ih1: "fst (term_rows (r + 1) ?rest) = r + 1 + int (length reg)"
    and ih2: "set (snd (term_rows (r + 1) ?rest)) \<subseteq> {r + 1 .. r + 1 + int (length reg)}"
    by simp_all
  from b ih2 c have "set (snd (term_rows r (py_join [LF] ((l # reg) @ [x]))))
          \<subseteq> {r .. r + 1 + int (length reg)}"
    by blast
  with a ih1 show ?case
    by (simp only: len)
qed

lemma redraw_text:
  "redraw d = py_mul ANSI_UP (lines d) @ [CR]
      @ concat (map (\<lambda>element. py_mul '' '' (int (length element)) @ [CR] @ ANSI_DOWN) (regestry d))
      @ py_mul ANSI_UP (lines d) @ [CR]
      @ py_join [LF] (regestry d @ [prompt d @ d_written d])"
  by (simp add: redraw_def render_lines_def clear_lines_def d_write_def get_def Let_def)

lemma plain_append: "plain (a @ b) \<longleftrightarrow> plain a \<and> plain b"
  by (auto simp add: plain_def)

text \<open>
  When the registry has as many lines as the capacity says, and neither a registry line
  nor the prompt nor the text typed so far holds an escape character or a line feed,
  the redraw ends on the row on which it started and prints only on the rows of the
  registry lines and of the prompt line.
\<close>

lemma redraw_plain:
  assumes len: "length (regestry d) = nat (lines d)"
    and reg: "\<forall>l \<in> set (regestry d). plain l"
    and p: "plain (prompt d)" and w: "plain (d_written d)"
  shows "fst (term_rows r (redraw d)) = r
    \<and> set (snd (term_rows r (redraw d))) \<subseteq> {r - int (length (regestry d)) .. r}"
proof -
  let ?n = "length (regestry d)"
  let ?join = "py_join [LF] (regestry d @ [prompt d @ d_written d])"
  let ?clear = "concat (map (\<lambda>element. py_mul '' '' (int (length element)) @ [CR] @ ANSI_DOWN) (regestry d))"
  have ups: "py_mul ANSI_UP (lines d) = concat (replicate ?n ANSI_UP)"
    by (simp add: py_mul_def len)
  have render: "term_rows r (concat (replicate ?n ANSI_UP) @ CR # ?join)
      = term_rows (r - int ?n) ?join"
    by (simp only: term_rows_ups term_rows_cr)
  have whole: "term_rows r (redraw d)
      = term_rows (r - int ?n) (?clear @ (concat (replicate ?n ANSI_UP) @ CR # ?join))"
    by (simp add: redraw_text ups term_rows_ups term_rows_cr)
  from term_rows_join [OF reg, of "prompt d @ d_written d" "r - int ?n"] p w
  have j: "fst (term_rows (r - int ?n) ?join) = r"
    "set (snd (term_rows (r - int ?n) ?join)) \<subseteq> {r - int ?n .. r}"
    by (simp_all add: plain_append)
  from term_rows_clear [of "r - int ?n" "regestry d" "concat (replicate ?n ANSI_UP) @ CR # ?join"]
  have "fst (term_rows r (redraw d)) = fst (term_rows (r - int ?n) ?join)"
    and "set (snd (term_rows r (redraw d)))
          \<subseteq> {r - int ?n ..< r} \<union> set (snd (term_rows (r - int ?n) ?join))"
    by (simp_all add: whole render)
  with j show ?thesis by auto
qed

text \<open>
  C9 at a display of capacity 1 after \<^verbatim>\<open>push("a\nb")\<close>: the redraw ends one row
  below the row on which it started, and prints on the row below the prompt line.
\<close>

theorem redraw_line_break_moves_cursor:
  "term_rows 0 (redraw (state_after
       (push (IODisplay ''> '' 1 True) (PStr [CHR ''a'', LF, CHR ''b'']) True)))
     = (1, [- 1, - 1, - 1, - 1, 0, 1, 1])"
  by code_simp

section \<open>Properties of stop\<close>

text \<open>
  A second call of \<^verbatim>\<open>stop\<close> changes no field of the display: only the text of
  \<^verbatim>\<open>_clear_lines\<close> is written once more when \<open>dispatch\<close> is set. The flag is cleared
  and no thread object is kept.
\<close>

lemma stop_twice:
  "stop (stop d dispatch1) dispatch2
     = (stop d dispatch1)\<lparr>stdout := stdout (stop (stop d dispatch1) dispatch2)\<rparr>
   \<and> \<not> running (stop (stop d dispatch1) dispatch2)
   \<and> \<not> thread (stop (stop d dispatch1) dispatch2)"
  by (simp add: stop_def clear_lines_def d_write_def Let_def)

text \<open>The loop of \<^verbatim>\<open>_start\<close> returns at its next test once the flag is cleared.\<close>

lemma ds_loop_stopped:
  "\<not> running (disp st) \<Longrightarrow> ds_loop callback st keys = Returned () (stdout (disp st))"
  by (cases keys) simp_all

end
